theory Spec2Isabelle
  imports Complex_Main
begin

section \<open>Scenes (scene\_detector.py)\<close>

text \<open>
  Python floats are modelled as exact reals. A \<open>Scene\<close> object stores \<open>start_time\<close>,
  \<open>end_time\<close> and \<open>speech_segments\<close>; its other attributes (\<open>duration\<close>,
  \<open>speech_duration\<close>, \<open>speech_density\<close>) are computed once in \<open>__init__\<close> from these
  three and are never assigned again anywhere in the repository, so they are functions of
  the record.
\<close>

record scene =
  start_time :: real
  end_time :: real
  speech_segments :: "(real \<times> real) list"

definition Scene :: "real \<Rightarrow> real \<Rightarrow> (real \<times> real) list \<Rightarrow> scene" where
  "Scene s e segs = \<lparr>start_time = s, end_time = e, speech_segments = segs\<rparr>"

definition duration :: "scene \<Rightarrow> real" where
  "duration sc = end_time sc - start_time sc"

definition speech_duration :: "scene \<Rightarrow> real" where
  "speech_duration sc = sum_list (map (\<lambda>(s, e). e - s) (speech_segments sc))"

definition speech_density :: "scene \<Rightarrow> real" where
  "speech_density sc = (if duration sc > 0 then speech_duration sc / duration sc else 0)"

subsection \<open>merge\_short\_scenes\<close>

text \<open>
  The \<open>for next_scene in scenes[1:]\<close> loop, threading \<open>merged\<close> and \<open>current\<close>.
\<close>

fun merge_loop :: "real \<Rightarrow> scene list \<Rightarrow> scene \<Rightarrow> scene list \<Rightarrow> scene list \<times> scene" where
  "merge_loop min_duration merged current [] = (merged, current)"
| "merge_loop min_duration merged current (next_scene # rest) =
     (if duration current < min_duration
      then merge_loop min_duration merged
             (Scene (start_time current) (end_time next_scene)
                    (speech_segments current @ speech_segments next_scene)) rest
      else merge_loop min_duration (merged @ [current]) next_scene rest)"

definition merge_short_scenes :: "scene list \<Rightarrow> real \<Rightarrow> scene list" where
  "merge_short_scenes scenes min_duration =
     (case scenes of
        [] \<Rightarrow> []
      | first # rest \<Rightarrow>
          (case merge_loop min_duration [] first rest of
             (merged, current) \<Rightarrow>
               if duration current \<ge> min_duration then merged @ [current]
               else if merged \<noteq> [] then
                 (let prev = last merged
                  in butlast merged @
                     [Scene (start_time prev) (end_time current)
                            (speech_segments prev @ speech_segments current)])
               else merged @ [current]))"

subsection \<open>merge\_short\_scenes with its partial operations\<close>

text \<open>
  The operations of \<open>merge_short_scenes\<close> that can raise in Python are the index
  \<open>scenes[0]\<close> and \<open>merged.pop()\<close> (\<open>IndexError\<close> on an empty list) and the division in
  \<open>Scene.__init__\<close> (\<open>ZeroDivisionError\<close>). Here they return an error value, and the
  function is written again with every error passed on to the caller. The source has no
  \<open>raise\<close> statement and no validation of its input; \<open>InvalidInputError\<close> is the error the
  spec names.
\<close>

datatype error = InvalidInputError | IndexError | ZeroDivisionError

definition getitem :: "'a list \<Rightarrow> nat \<Rightarrow> error + 'a" where
  "getitem xs i = (if i < length xs then Inr (xs ! i) else Inl IndexError)"

definition list_pop :: "'a list \<Rightarrow> error + ('a list \<times> 'a)" where
  "list_pop xs = (if xs = [] then Inl IndexError else Inr (butlast xs, last xs))"

definition truediv :: "real \<Rightarrow> real \<Rightarrow> error + real" where
  "truediv a b = (if b = 0 then Inl ZeroDivisionError else Inr (a / b))"

text \<open>
  \<open>Scene.__init__\<close>: the density is \<open>speech_duration / duration if duration > 0 else 0\<close>.
\<close>

definition Scene_init :: "real \<Rightarrow> real \<Rightarrow> (real \<times> real) list \<Rightarrow> error + scene" where
  "Scene_init s e segs =
     (let dur = e - s;
          speech = sum_list (map (\<lambda>(a, b). b - a) segs)
      in case (if dur > 0 then truediv speech dur else Inr 0) of
           Inl err \<Rightarrow> Inl err
         | Inr density \<Rightarrow> Inr (Scene s e segs))"

fun merge_loop_checked ::
  "real \<Rightarrow> scene list \<Rightarrow> scene \<Rightarrow> scene list \<Rightarrow> error + (scene list \<times> scene)" where
  "merge_loop_checked min_duration merged current [] = Inr (merged, current)"
| "merge_loop_checked min_duration merged current (next_scene # rest) =
     (if duration current < min_duration
      then (case Scene_init (start_time current) (end_time next_scene)
                   (speech_segments current @ speech_segments next_scene) of
              Inl err \<Rightarrow> Inl err
            | Inr fused \<Rightarrow> merge_loop_checked min_duration merged fused rest)
      else merge_loop_checked min_duration (merged @ [current]) next_scene rest)"

definition merge_short_scenes_checked :: "scene list \<Rightarrow> real \<Rightarrow> error + scene list" where
  "merge_short_scenes_checked scenes min_duration =
     (if scenes = [] then Inr []
      else case getitem scenes 0 of
             Inl err \<Rightarrow> Inl err
           | Inr first \<Rightarrow>
               (case merge_loop_checked min_duration [] first (drop 1 scenes) of
                  Inl err \<Rightarrow> Inl err
                | Inr (merged, current) \<Rightarrow>
                    if duration current \<ge> min_duration then Inr (merged @ [current])
                    else if merged \<noteq> [] then
                      (case list_pop merged of
                         Inl err \<Rightarrow> Inl err
                       | Inr (merged', prev) \<Rightarrow>
                           (case Scene_init (start_time prev) (end_time current)
                                   (speech_segments prev @ speech_segments current) of
                              Inl err \<Rightarrow> Inl err
                            | Inr fused \<Rightarrow> Inr (merged' @ [fused])))
                    else Inr (merged @ [current])))"

text \<open>
  The spec's notion of a consistent scene sequence: no scene has negative duration, and the
  scenes are in order without overlap (each scene ends before every later one starts).
\<close>

definition scenes_consistent :: "scene list \<Rightarrow> bool" where
  "scenes_consistent scenes \<longleftrightarrow>
     list_all (\<lambda>s. start_time s \<le> end_time s) scenes \<and>
     sorted_wrt (\<lambda>a b. end_time a \<le> start_time b) scenes"


section \<open>Text helpers (Python \<open>str\<close> and \<open>re\<close> operations used by highlight\_selector.py)\<close>

text \<open>
  Texts are sequences of characters with code points below 256. \<open>is_space\<close> is Python's
  \<open>str.isspace\<close> on that range, \<open>lower_char\<close> is \<open>str.lower\<close> on that range, and
  \<open>is_digit\<close> is what the pattern \<open>\d\<close> matches there.
\<close>

definition is_space :: "char \<Rightarrow> bool" where
  "is_space c = (let n = (of_char c :: nat)
                 in (9 \<le> n \<and> n \<le> 13) \<or> (28 \<le> n \<and> n \<le> 32) \<or> n = 133 \<or> n = 160)"

definition lower_char :: "char \<Rightarrow> char" where
  "lower_char c = (let n = (of_char c :: nat)
                   in if (65 \<le> n \<and> n \<le> 90) \<or> (192 \<le> n \<and> n \<le> 214) \<or> (216 \<le> n \<and> n \<le> 222)
                      then char_of (n + 32) else c)"

definition lower :: "string \<Rightarrow> string" where
  "lower s = map lower_char s"

definition is_digit :: "char \<Rightarrow> bool" where
  "is_digit c = (let n = (of_char c :: nat) in 48 \<le> n \<and> n \<le> 57)"

text \<open>\<open>str.split()\<close> without arguments: the maximal runs of non-whitespace characters.\<close>

fun split_from :: "string \<Rightarrow> string \<Rightarrow> string list" where
  "split_from cur [] = (if cur = [] then [] else [cur])"
| "split_from cur (c # cs) =
     (if is_space c then (if cur = [] then split_from [] cs else cur # split_from [] cs)
      else split_from (cur @ [c]) cs)"

definition split :: "string \<Rightarrow> string list" where
  "split s = split_from [] s"

text \<open>\<open>str.strip()\<close> without arguments.\<close>

definition strip :: "string \<Rightarrow> string" where
  "strip s = rev (dropWhile is_space (rev (dropWhile is_space s)))"

text \<open>
  \<open>re.split(r'[.!?]+', text)\<close>: the pieces between maximal runs of \<open>.\<close>, \<open>!\<close> and \<open>?\<close>,
  empty pieces at either end included. The flag says whether the previous character
  belonged to a separator run.
\<close>

definition is_sentence_sep :: "char \<Rightarrow> bool" where
  "is_sentence_sep c \<longleftrightarrow> c = CHR ''.'' \<or> c = CHR ''!'' \<or> c = CHR ''?''"

fun re_split_from :: "string \<Rightarrow> bool \<Rightarrow> string \<Rightarrow> string list" where
  "re_split_from cur in_sep [] = [cur]"
| "re_split_from cur in_sep (c # cs) =
     (if is_sentence_sep c
      then (if in_sep then re_split_from cur True cs else cur # re_split_from [] True cs)
      else re_split_from (cur @ [c]) False cs)"

definition re_split_sentences :: "string \<Rightarrow> string list" where
  "re_split_sentences s = re_split_from [] False s"

text \<open>The substring test \<open>kw in text\<close>.\<close>

fun starts_with :: "string \<Rightarrow> string \<Rightarrow> bool" where
  "starts_with s [] = True"
| "starts_with [] (k # ks) = False"
| "starts_with (c # cs) (k # ks) = (c = k \<and> starts_with cs ks)"

fun contains :: "string \<Rightarrow> string \<Rightarrow> bool" where
  "contains [] kw = (kw = [])"
| "contains (c # cs) kw = (starts_with (c # cs) kw \<or> contains cs kw)"

text \<open>
  \<open>re.search(r'\d+', s)\<close>: the leftmost maximal run of digits, if there is one, and
  \<open>float\<close> of such a run.
\<close>

definition re_search_digits :: "string \<Rightarrow> string option" where
  "re_search_digits s =
     (case dropWhile (\<lambda>c. \<not> is_digit c) s of
        [] \<Rightarrow> None
      | d # ds \<Rightarrow> Some (takeWhile is_digit (d # ds)))"

definition float_of_digits :: "string \<Rightarrow> real" where
  "float_of_digits ds = real (foldl (\<lambda>n c. 10 * n + (of_char c - 48)) 0 ds)"

text \<open>Python slices \<open>xs[a:b]\<close> and \<open>xs[a:]\<close> with non-negative bounds.\<close>

definition slice :: "'a list \<Rightarrow> nat \<Rightarrow> nat \<Rightarrow> 'a list" where
  "slice xs a b = drop a (take b xs)"

definition slice_from :: "'a list \<Rightarrow> nat \<Rightarrow> 'a list" where
  "slice_from xs a = drop a xs"

section \<open>Highlight selection (highlight\_selector.py)\<close>

subsection \<open>Heuristic text score\<close>

definition viral_keywords :: "string list" where
  "viral_keywords =
     [''amazing'', ''awesome'', ''incredible'', ''shocking'',
      ''mind-blowing'', ''insane'', ''unbelievable'', ''viral'',
      ''trending'', ''epic'', ''revolutionary'', ''game-changing'',
      ''breakthrough'', ''genius'', ''masterpiece'', ''perfect'',
      ''stunning'', ''extraordinary'', ''phenomenal'', ''legendary'',
      ''important'', ''key point'', ''essential'', ''crucial'',
      ''highlight'', ''main idea'', ''summary'', ''conclusion'',
      ''therefore'', ''result'', ''consequently'', ''because'',
      ''explains'', ''demonstrates'', ''shows'', ''proves'']"

text \<open>\<open>sum(1 for kw in kws if kw.lower() in text)\<close>\<close>

definition count_keywords :: "string list \<Rightarrow> string \<Rightarrow> nat" where
  "count_keywords kws text = length (filter (\<lambda>kw. contains text (lower kw)) kws)"

definition word_count :: "string \<Rightarrow> nat" where
  "word_count text = length (split (lower text))"

definition sentence_count :: "string \<Rightarrow> nat" where
  "sentence_count text = length (re_split_sentences (lower text))"

definition high_impact_words :: "string \<Rightarrow> nat" where
  "high_impact_words text = count_keywords (take 30 viral_keywords) (lower text)"

definition content_indicators :: "string \<Rightarrow> nat" where
  "content_indicators text = count_keywords (slice viral_keywords 30 40) (lower text)"

definition emotional_triggers :: "string \<Rightarrow> nat" where
  "emotional_triggers text = count_keywords (slice viral_keywords 40 52) (lower text)"

definition call_to_action :: "string \<Rightarrow> nat" where
  "call_to_action text = count_keywords (slice_from viral_keywords 52) (lower text)"

definition keyword_score :: "string \<Rightarrow> real" where
  "keyword_score text =
     real (high_impact_words text) * 0.15 +
     real (content_indicators text) * 0.25 +
     real (emotional_triggers text) * 0.3 +
     real (call_to_action text) * 0.2"

definition quality_score :: "string \<Rightarrow> real" where
  "quality_score text =
     (let t = lower text;
          has_question = CHR ''?'' \<in> set t;
          has_exclamation = CHR ''!'' \<in> set t;
          has_number = (re_search_digits t \<noteq> None);
          has_quotes = (CHR 0x22 \<in> set t \<or> CHR 0x27 \<in> set t);
          optimal_length = (10 \<le> word_count text \<and> word_count text \<le> 30)
      in sum_list
           [if has_question then 0.2 else 0,
            if has_exclamation then 0.15 else 0,
            if has_number then 0.1 else 0,
            if has_quotes then 0.15 else 0,
            if optimal_length then 0.2 else 0])"

definition density_score :: "string \<Rightarrow> real" where
  "density_score text =
     (let content_density = real (word_count text) / real (sentence_count text)
      in min (content_density / 10.0) 1.0)"

definition score_text_with_keywords :: "string \<Rightarrow> real" where
  "score_text_with_keywords text =
     (if word_count text < 5 \<or> sentence_count text = 0 then 0.0
      else (let final_score =
                  keyword_score text * 0.4 +
                  quality_score text * 0.3 +
                  density_score text * 0.3
            in min final_score 1.0))"

subsection \<open>External scorer\<close>

text \<open>
  \<open>_score_text_with_cohere\<close> runs the client construction, the \<open>generate\<close> call and the
  read of \<open>response.generations[0].text\<close> inside one \<open>try\<close>. What that part does is outside
  the repository; its outcome is either an exception or the generated text.
\<close>

datatype cohere_outcome = CohereRaised | CohereText string

definition score_text_with_cohere :: "cohere_outcome \<Rightarrow> string \<Rightarrow> real" where
  "score_text_with_cohere outcome text =
     (case outcome of
        CohereRaised \<Rightarrow> score_text_with_keywords text
      | CohereText generated \<Rightarrow>
          (let score_text = strip generated
           in case re_search_digits score_text of
                Some score_match \<Rightarrow> float_of_digits score_match / 100
              | None \<Rightarrow> 0.5))"


subsection \<open>Words of the transcript\<close>

text \<open>
  A word is a dict with the keys \<open>start\<close> and \<open>end\<close> and, optionally, \<open>word\<close> and \<open>text\<close>
  (the transcriber writes \<open>text\<close>). \<open>transcription_result\<close> is an object holding the word
  list, or \<open>None\<close>.
\<close>

record word =
  w_start :: real
  w_end :: real
  w_word :: "string option"
  w_text :: "string option"

definition word_text_of :: "word \<Rightarrow> string" where
  "word_text_of w =
     (case w_word w of
        Some t \<Rightarrow> t
      | None \<Rightarrow> (case w_text w of Some t \<Rightarrow> t | None \<Rightarrow> []))"

definition get_text_for_timerange :: "word list \<Rightarrow> real \<Rightarrow> real \<Rightarrow> string" where
  "get_text_for_timerange word_timestamps start_t end_t =
     strip (foldl (\<lambda>text timestamp.
                     if start_t \<le> w_start timestamp \<and> w_end timestamp \<le> end_t
                     then text @ word_text_of timestamp @ '' ''
                     else text)
                  [] word_timestamps)"

definition score_text :: "string \<Rightarrow> real" where
  "score_text text = score_text_with_keywords text"

definition score_context :: "string \<Rightarrow> real" where
  "score_context text = real (length (split text)) / 100.0"

definition score_transitions :: "scene list \<Rightarrow> real" where
  "score_transitions scenes = real (length scenes) / 10.0"

subsection \<open>Candidate building\<close>

text \<open>
  The inner loop \<open>for j in range(i, len(scenes))\<close> of \<open>select_highlights\<close>, run over the
  list of the remaining indices \<open>j\<close>, with the loop variables \<open>current_group\<close>,
  \<open>current_duration\<close>, \<open>speech_frames\<close> and \<open>total_frames\<close> as arguments. Every
  \<open>scene_groups.append(full_group)\<close> is recorded together with the window \<open>(i, j)\<close> at
  which it happens; the source's \<open>scene_groups\<close> is the list of the groups alone.
  Every \<open>Scene\<close> has the attribute \<open>speech_density\<close>, so the \<open>hasattr\<close> test is true.
\<close>

fun grow_window ::
  "real \<Rightarrow> real \<Rightarrow> scene list \<Rightarrow> nat \<Rightarrow> scene list \<Rightarrow> real \<Rightarrow> real \<Rightarrow> real \<Rightarrow> nat list
     \<Rightarrow> (nat \<times> nat \<times> scene list) list" where
  "grow_window min_duration max_duration scenes i current_group current_duration
       speech_frames total_frames [] = []"
| "grow_window min_duration max_duration scenes i current_group current_duration
       speech_frames total_frames (j # js) =
     (let scene = scenes ! j;
          current_group' = current_group @ [scene];
          current_duration' = current_duration + duration scene;
          speech_frames' = speech_frames + speech_duration scene * 30;
          total_frames' = total_frames + duration scene * 30;
          speech_density = speech_frames' / max 1 total_frames';
          content_richness = min 1.0 (real (length current_group') / 10);
          adaptive_min = min_duration;
          adaptive_max = min max_duration
                           (min_duration + (max_duration - min_duration) *
                              (0.5 * speech_density + 0.5 * content_richness));
          natural_break = (j > i \<and> j < length scenes - 1 \<and>
                           speech_segments scene = [] \<and> speech_segments (scenes ! (j + 1)) \<noteq> []);
          good_duration = (adaptive_min \<le> current_duration' \<and> current_duration' \<le> adaptive_max);
          emitted = (if good_duration \<or> (current_duration' \<ge> adaptive_min \<and> natural_break)
                     then (let context_start = nat (max 0 (int i - 1));
                               context_end = min (length scenes) (j + 2)
                           in [(i, j, slice scenes context_start context_end)])
                     else [])
      in if current_duration' > max_duration then emitted
         else emitted @ grow_window min_duration max_duration scenes i current_group'
                          current_duration' speech_frames' total_frames' js)"

definition candidate_windows :: "real \<Rightarrow> real \<Rightarrow> scene list \<Rightarrow> (nat \<times> nat \<times> scene list) list" where
  "candidate_windows min_duration max_duration scenes =
     concat (map (\<lambda>i. grow_window min_duration max_duration scenes i [] 0 0 0 [i..<length scenes])
                 [0..<length scenes])"

definition scene_groups :: "real \<Rightarrow> real \<Rightarrow> scene list \<Rightarrow> scene list list" where
  "scene_groups min_duration max_duration scenes =
     map (\<lambda>(i, j, full_group). full_group) (candidate_windows min_duration max_duration scenes)"

text \<open>The duration accumulated by the inner loop for the window from \<open>i\<close> to \<open>j\<close>.\<close>

definition window_duration :: "scene list \<Rightarrow> nat \<Rightarrow> nat \<Rightarrow> real" where
  "window_duration scenes i j = sum_list (map (\<lambda>k. duration (scenes ! k)) [i..<Suc j])"

subsection \<open>Scoring the groups\<close>

record scored_group =
  g_scenes :: "scene list"
  g_start_time :: real
  g_end_time :: real
  g_duration :: real
  g_text :: string
  g_score :: real

definition context_window :: real where
  "context_window = 5"

definition score_group :: "word list \<Rightarrow> scene list \<Rightarrow> scored_group" where
  "score_group words grp =
     (let start_t = max 0 (start_time (hd grp) - context_window);
          end_t = min (end_time (last grp) + context_window) (end_time (last grp));
          dur = end_t - start_t;
          text = get_text_for_timerange words start_t end_t;
          content_score = score_text text;
          context_score = score_context text;
          transition_score = score_transitions grp;
          total_score = content_score * 0.5 + context_score * 0.3 + transition_score * 0.2
      in \<lparr>g_scenes = grp, g_start_time = start_t, g_end_time = end_t, g_duration = dur,
          g_text = text, g_score = total_score\<rparr>)"

definition scored_groups :: "real \<Rightarrow> real \<Rightarrow> scene list \<Rightarrow> word list \<Rightarrow> scored_group list" where
  "scored_groups min_duration max_duration scenes words =
     map (score_group words) (scene_groups min_duration max_duration scenes)"

subsection \<open>Greedy selection\<close>

definition overlaps_any :: "scored_group \<Rightarrow> scored_group list \<Rightarrow> bool" where
  "overlaps_any grp selected_groups =
     list_ex (\<lambda>selected. g_start_time grp < g_end_time selected \<and>
                         g_end_time grp > g_start_time selected) selected_groups"

fun select_loop :: "int \<Rightarrow> scored_group list \<Rightarrow> scored_group list \<Rightarrow> scored_group list" where
  "select_loop max_highlights selected_groups [] = selected_groups"
| "select_loop max_highlights selected_groups (grp # rest) =
     (if \<not> overlaps_any grp selected_groups
      then (let selected_groups' = selected_groups @ [grp]
            in if int (length selected_groups') \<ge> max_highlights then selected_groups'
               else select_loop max_highlights selected_groups' rest)
      else select_loop max_highlights selected_groups rest)"

record highlight =
  h_start_time :: real
  h_end_time :: real
  h_duration :: real
  h_score :: real
  h_text :: string
  h_scene :: scene

definition Highlight :: "real \<Rightarrow> real \<Rightarrow> real \<Rightarrow> string \<Rightarrow> scene \<Rightarrow> highlight" where
  "Highlight s e sc txt scn =
     \<lparr>h_start_time = s, h_end_time = e, h_duration = e - s, h_score = sc, h_text = txt,
      h_scene = scn\<rparr>"

text \<open>
  \<open>scored_groups.sort(key=score, reverse=True)\<close> is a stable sort by descending score:
  \<open>sort_key\<close> on the negated score.
\<close>

definition select_highlights ::
  "real \<Rightarrow> real \<Rightarrow> scene list \<Rightarrow> word list option \<Rightarrow> int \<Rightarrow> highlight list" where
  "select_highlights min_duration max_duration scenes transcription_result max_highlights =
     (let words = (case transcription_result of Some ws \<Rightarrow> ws | None \<Rightarrow> []);
          sorted_groups = sort_key (\<lambda>g. - g_score g)
                            (scored_groups min_duration max_duration scenes words);
          selected_groups = select_loop max_highlights [] sorted_groups
      in map (\<lambda>grp. Highlight (g_start_time grp) (g_end_time grp) (g_score grp)
                         (g_text grp) (hd (g_scenes grp)))
             selected_groups)"

text \<open>
  The value of \<open>adaptive_max\<close> in the first pass of the inner loop (\<open>j = i\<close>), where the
  group holds the one scene and the frame counters start from zero.
\<close>

definition first_pass_adaptive_max :: "real \<Rightarrow> real \<Rightarrow> scene \<Rightarrow> real" where
  "first_pass_adaptive_max min_duration max_duration scene =
     (let speech_frames = 0 + speech_duration scene * 30;
          total_frames = 0 + duration scene * 30;
          speech_density = speech_frames / max 1 total_frames;
          content_richness = min 1.0 (real (length [scene]) / 10)
      in min max_duration
           (min_duration + (max_duration - min_duration) *
              (0.5 * speech_density + 0.5 * content_richness)))"

section \<open>Auxiliary notions and example inputs\<close>

text \<open>Two scored groups that do not overlap in time.\<close>

definition apart :: "scored_group \<Rightarrow> scored_group \<Rightarrow> bool" where
  "apart a b \<longleftrightarrow> g_end_time a \<le> g_start_time b \<or> g_end_time b \<le> g_start_time a"

text \<open>
  Four scenes with a gap of nine seconds in the middle: the windows of the first and of the
  last scene are both accepted.
\<close>

definition gap_scenes :: "scene list" where
  "gap_scenes = [Scene 0 31 [], Scene 31 131 [], Scene 140 240 [], Scene 240 271 []]"

text \<open>
  Three scenes: the second is long and silent and is followed by a scene with speech.
\<close>

definition pause_scenes :: "scene list" where
  "pause_scenes = [Scene 0 20 [], Scene 20 120 [], Scene 120 130 [(120, 125)]]"

text \<open>
  Two scenes: a first scene of 100 seconds without speech, followed by a scene with speech.
\<close>

definition long_quiet_scenes :: "scene list" where
  "long_quiet_scenes = [Scene 0 100 [], Scene 100 110 [(100, 105)]]"

section \<open>Properties of merge\_short\_scenes\<close>

text \<open>
  Invariant of the merging pass on a consistent sequence: the emitted scenes followed by
  \<open>current\<close> stay consistent, every emitted scene is at least \<open>min_duration\<close> long, the
  first start time is kept and \<open>current\<close> ends where the last scene read ends.
\<close>

lemma merge_loop_inv:
  assumes "scenes_consistent (merged @ current # rest)"
      and "\<forall>s\<in>set merged. md \<le> duration s"
      and "merge_loop md merged current rest = (merged', current')"
  shows "scenes_consistent (merged' @ [current']) \<and> (\<forall>s\<in>set merged'. md \<le> duration s)
       \<and> start_time (hd (merged' @ [current'])) = start_time (hd (merged @ [current]))
       \<and> end_time current' = end_time (last (current # rest))"
  using assms
proof (induction rest arbitrary: merged current)
  case Nil
  then show ?case by simp
next
  case (Cons n rest)
  show ?case
  proof (cases "duration current < md")
    case True
    let ?c = "Scene (start_time current) (end_time n) (speech_segments current @ speech_segments n)"
    from Cons.prems(1) have c: "scenes_consistent (merged @ ?c # rest)"
      by (auto simp: scenes_consistent_def Scene_def sorted_wrt_append)
    from Cons.prems(3) True have m: "merge_loop md merged ?c rest = (merged', current')" by simp
    from Cons.IH[OF c Cons.prems(2) m] show ?thesis
      by (cases merged) (auto simp: Scene_def)
  next
    case False
    from Cons.prems(1) have c: "scenes_consistent ((merged @ [current]) @ n # rest)" by simp
    from Cons.prems(2) False have d: "\<forall>s\<in>set (merged @ [current]). md \<le> duration s" by auto
    from Cons.prems(3) False have m: "merge_loop md (merged @ [current]) n rest = (merged', current')" by simp
    from Cons.IH[OF c d m] show ?thesis
      by (cases merged) auto
  qed
qed

lemma tail_fuse_duration:
  assumes c: "scenes_consistent (merged @ [current])" and ne: "merged \<noteq> []"
  shows "duration (last merged) \<le> end_time current - start_time (last merged)"
proof -
  from ne obtain ms p where m: "merged = ms @ [p]" by (metis append_butlast_last_id)
  with c have "end_time p \<le> start_time current" "start_time current \<le> end_time current"
    by (auto simp: scenes_consistent_def sorted_wrt_append)
  with m show ?thesis by (simp add: duration_def)
qed

text \<open>
  Claim C2, amended. For a non-empty scene sequence that is ordered, non-overlapping and
  has non-negative durations, and for every \<open>min_duration\<close>, the result of
  \<open>merge_short_scenes\<close> is non-empty, its first scene starts at the input's first
  \<open>start_time\<close> and its last scene ends at the input's last \<open>end_time\<close>. A scene shorter
  than \<open>min_duration\<close> occurs in the result only when the result is one single scene and
  the whole input range, from the first start to the last end, is shorter than
  \<open>min_duration\<close>.
\<close>

theorem merge_short_scenes_coverage:
  assumes c: "scenes_consistent scenes" and ne: "scenes \<noteq> []"
  shows "merge_short_scenes scenes md \<noteq> [] \<and>
         start_time (hd (merge_short_scenes scenes md)) = start_time (hd scenes) \<and>
         end_time (last (merge_short_scenes scenes md)) = end_time (last scenes) \<and>
         ((\<exists>s\<in>set (merge_short_scenes scenes md). duration s < md) \<longrightarrow>
            length (merge_short_scenes scenes md) = 1 \<and>
            end_time (last scenes) - start_time (hd scenes) < md)"
proof -
  from ne obtain first rest where sc: "scenes = first # rest" by (cases scenes) auto
  obtain merged current where ml: "merge_loop md [] first rest = (merged, current)"
    by (cases "merge_loop md [] first rest")
  from c sc have c0: "scenes_consistent ([] @ first # rest)" by simp
  have "\<forall>s\<in>set []. md \<le> duration (s::scene)" by simp
  from merge_loop_inv[OF c0 this ml]
  have inv: "scenes_consistent (merged @ [current])" "\<forall>s\<in>set merged. md \<le> duration s"
    "start_time (hd (merged @ [current])) = start_time first"
    "end_time current = end_time (last (first # rest))" by simp_all
  show ?thesis
  proof (cases "md \<le> duration current")
    case True
    with ml sc have out: "merge_short_scenes scenes md = merged @ [current]"
      by (simp add: merge_short_scenes_def)
    with inv True sc show ?thesis by (auto simp: not_less)
  next
    case False
    show ?thesis
    proof (cases "merged = []")
      case True
      with ml sc False have out: "merge_short_scenes scenes md = [current]"
        by (simp add: merge_short_scenes_def)
      from inv(3) True have "start_time current = start_time first" by simp
      with out inv(4) sc False show ?thesis by (simp add: duration_def)
    next
      case ne': False
      let ?f = "Scene (start_time (last merged)) (end_time current)
                  (speech_segments (last merged) @ speech_segments current)"
      from ml sc False ne' have out: "merge_short_scenes scenes md = butlast merged @ [?f]"
        by (simp add: merge_short_scenes_def Let_def)
      from inv(2) ne' have "md \<le> duration (last merged)" by simp
      with tail_fuse_duration[OF inv(1) ne']
      have d: "md \<le> duration ?f" by (simp add: duration_def Scene_def)
      have b: "\<forall>s\<in>set (butlast merged). md \<le> duration s"
        using inv(2) by (meson in_set_butlastD)
      have h: "start_time (hd (butlast merged @ [?f])) = start_time first"
      proof (cases "butlast merged")
        case Nil
        with ne' have "merged = [last merged]" by (metis append_butlast_last_id append_Nil)
        then have "hd (merged @ [current]) = last merged" by (metis append_Cons list.sel(1))
        with inv(3) Nil show ?thesis by (simp add: Scene_def)
      next
        case (Cons a as)
        with ne' have "merged = a # as @ [last merged]" by (metis append_butlast_last_id append_Cons)
        then have "hd (merged @ [current]) = a" by (metis append_Cons list.sel(1))
        with inv(3) Cons show ?thesis by simp
      qed
      from out d b h inv(4) sc show ?thesis by (auto simp: Scene_def not_less)
    qed
  qed
qed

theorem merge_short_scenes_coverage_witness:
  "scenes_consistent [Scene 0 1 [], Scene 1 2 [], Scene 2 10 []] \<and>
   [Scene 0 1 [], Scene 1 2 [], Scene 2 10 []] \<noteq> [] \<and>
   merge_short_scenes [Scene 0 1 [], Scene 1 2 [], Scene 2 10 []] 5 = [Scene 0 10 []] \<and>
   start_time (hd (merge_short_scenes [Scene 0 1 [], Scene 1 2 [], Scene 2 10 []] 5)) = 0 \<and>
   end_time (last (merge_short_scenes [Scene 0 1 [], Scene 1 2 [], Scene 2 10 []] 5)) = 10"
  using merge_short_scenes_coverage [of "[Scene 0 1 [], Scene 1 2 [], Scene 2 10 []]" 5]
  by (simp add: scenes_consistent_def merge_short_scenes_def Scene_def duration_def)

text \<open>
  With the exception worded as "the input contained exactly one scene" the statement fails:
  two consistent scenes of one second each are fused into one scene of two seconds, which
  is shorter than a \<open>min_duration\<close> of five seconds.
\<close>

theorem merge_short_scenes_undersized_counterexample:
  "scenes_consistent [Scene 0 1 [], Scene 1 2 []] \<and>
   length [Scene 0 1 [], Scene 1 2 []] \<noteq> 1 \<and>
   merge_short_scenes [Scene 0 1 [], Scene 1 2 []] 5 = [Scene 0 2 []] \<and>
   duration (Scene 0 2 []) < 5"
  by (simp add: scenes_consistent_def merge_short_scenes_def Scene_def duration_def)

text \<open>
  None of the partial operations fails where \<open>merge_short_scenes\<close> uses it: the division
  is guarded by \<open>duration > 0\<close>, the index by \<open>if not scenes\<close> and the pop by \<open>elif merged\<close>.
\<close>

lemma Scene_init_returns: "Scene_init s e segs = Inr (Scene s e segs)"
  by (simp add: Scene_init_def truediv_def Let_def)

lemma merge_loop_checked_returns:
  "merge_loop_checked md merged current rest = Inr (merge_loop md merged current rest)"
  by (induction rest arbitrary: merged current) (simp_all add: Scene_init_returns)

lemma merge_short_scenes_checked_returns:
  "merge_short_scenes_checked scenes md = Inr (merge_short_scenes scenes md)"
proof (cases scenes)
  case Nil
  then show ?thesis by (simp add: merge_short_scenes_checked_def merge_short_scenes_def)
next
  case (Cons first rest)
  obtain merged current where ml: "merge_loop md [] first rest = (merged, current)"
    by (cases "merge_loop md [] first rest")
  with Cons show ?thesis
    by (simp add: merge_short_scenes_checked_def merge_short_scenes_def getitem_def
          merge_loop_checked_returns list_pop_def Scene_init_returns Let_def)
qed

text \<open>
  What the merging pass keeps on every input, consistent or not: the first start time, the
  last end time, and no more scenes than it has read.
\<close>

lemma merge_loop_ends:
  assumes "merge_loop md merged current rest = (merged', current')"
  shows "start_time (hd (merged' @ [current'])) = start_time (hd (merged @ [current])) \<and>
         end_time current' = end_time (last (current # rest)) \<and>
         length merged' \<le> length merged + length rest"
  using assms
proof (induction rest arbitrary: merged current)
  case Nil
  then show ?case by simp
next
  case (Cons n rest)
  show ?case
  proof (cases "duration current < md")
    case True
    let ?c = "Scene (start_time current) (end_time n) (speech_segments current @ speech_segments n)"
    from Cons.prems True have "merge_loop md merged ?c rest = (merged', current')" by simp
    from Cons.IH[OF this] show ?thesis by (cases merged) (auto simp: Scene_def)
  next
    case False
    with Cons.prems have "merge_loop md (merged @ [current]) n rest = (merged', current')" by simp
    from Cons.IH[OF this] show ?thesis by (cases merged) auto
  qed
qed

lemma fused_tail_start:
  assumes "merged \<noteq> []"
  shows "start_time (hd (butlast merged @ [Scene (start_time (last merged)) e segs]))
           = start_time (hd (merged @ [c]))"
proof -
  from assms obtain ms p where "merged = ms @ [p]" by (metis append_butlast_last_id)
  then show ?thesis by (cases ms) (simp_all add: Scene_def)
qed

lemma merge_short_scenes_ends:
  assumes ne: "scenes \<noteq> []"
  shows "merge_short_scenes scenes md \<noteq> [] \<and>
         length (merge_short_scenes scenes md) \<le> length scenes \<and>
         start_time (hd (merge_short_scenes scenes md)) = start_time (hd scenes) \<and>
         end_time (last (merge_short_scenes scenes md)) = end_time (last scenes)"
proof -
  from ne obtain first rest where sc: "scenes = first # rest" by (cases scenes) auto
  obtain merged current where ml: "merge_loop md [] first rest = (merged, current)"
    by (cases "merge_loop md [] first rest")
  from merge_loop_ends[OF ml]
  have inv: "start_time (hd (merged @ [current])) = start_time first"
    "end_time current = end_time (last (first # rest))"
    "length merged \<le> length rest" by simp_all
  show ?thesis
  proof (cases "md \<le> duration current \<or> merged = []")
    case True
    with ml sc have "merge_short_scenes scenes md = merged @ [current]"
      by (auto simp: merge_short_scenes_def)
    with inv sc show ?thesis by simp
  next
    case False
    let ?f = "Scene (start_time (last merged)) (end_time current)
                (speech_segments (last merged) @ speech_segments current)"
    from False ml sc have out: "merge_short_scenes scenes md = butlast merged @ [?f]"
      by (simp add: merge_short_scenes_def Let_def)
    from False have m: "merged \<noteq> []" by simp
    have "start_time (hd (butlast merged @ [?f])) = start_time first"
      using fused_tail_start[OF m, of "end_time current" _ current] inv(1) by simp
    with out inv sc show ?thesis by (simp add: Scene_def)
  qed
qed

text \<open>
  Claim C3, amended. \<open>merge_short_scenes\<close> never fails, with \<open>InvalidInputError\<close> or
  otherwise: for every scene sequence, consistent or not, and every \<open>min_duration\<close> it
  returns a scene sequence. On the empty input the result is empty; on a non-empty input
  the result is non-empty, has at most as many scenes as the input, its first scene starts
  at the input's first \<open>start_time\<close> and its last scene ends at the input's last
  \<open>end_time\<close>.
\<close>

theorem merge_short_scenes_never_fails:
  "\<exists>out. merge_short_scenes_checked scenes md = Inr out \<and>
         (scenes = [] \<longrightarrow> out = []) \<and>
         (scenes \<noteq> [] \<longrightarrow>
            out \<noteq> [] \<and> length out \<le> length scenes \<and>
            start_time (hd out) = start_time (hd scenes) \<and>
            end_time (last out) = end_time (last scenes))"
proof (cases "scenes = []")
  case True
  then show ?thesis by (simp add: merge_short_scenes_checked_def)
next
  case False
  from merge_short_scenes_ends[OF False, of md] False show ?thesis
    by (simp add: merge_short_scenes_checked_returns)
qed

theorem merge_short_scenes_never_fails_witness:
  "[Scene 0 5 [], Scene 3 4 []] \<noteq> [] \<and>
   merge_short_scenes_checked [Scene 0 5 [], Scene 3 4 []] 1 = Inr [Scene 0 5 [], Scene 3 4 []] \<and>
   start_time (hd [Scene 0 5 [], Scene 3 4 []]) = 0 \<and>
   end_time (last [Scene 0 5 [], Scene 3 4 []]) = 4 \<and>
   merge_short_scenes_checked [Scene 4 5 [], Scene 3 (7 / 2) [(3, 7 / 2)]] 2 = Inr [Scene 4 (7 / 2) [(3, 7 / 2)]] \<and>
   merge_short_scenes_checked [] 1 = Inr []"
  using merge_short_scenes_never_fails [of "[Scene 0 5 [], Scene 3 4 []]" 1]
  by (simp add: merge_short_scenes_checked_def getitem_def list_pop_def Scene_init_def
        truediv_def Scene_def duration_def)

text \<open>
  An overlapping, out-of-order input is not rejected with \<open>InvalidInputError\<close>: the call
  returns a scene list.
\<close>

theorem merge_short_scenes_accepts_inconsistent:
  "\<not> scenes_consistent [Scene 0 5 [], Scene 3 4 []] \<and>
   merge_short_scenes_checked [Scene 0 5 [], Scene 3 4 []] 1 \<noteq> Inl InvalidInputError \<and>
   merge_short_scenes_checked [Scene 0 5 [], Scene 3 4 []] 1 = Inr [Scene 0 5 [], Scene 3 4 []]"
  by (simp add: scenes_consistent_def merge_short_scenes_checked_def getitem_def list_pop_def
        Scene_init_def truediv_def Scene_def duration_def)

text \<open>
  When no scene is shorter than \<open>min_duration\<close>, the pass emits every scene but the last
  and ends with the last scene as \<open>current\<close>.
\<close>

lemma merge_loop_all_long:
  "\<forall>s\<in>set (current # rest). md \<le> duration s \<Longrightarrow>
   merge_loop md merged current rest = (merged @ butlast (current # rest), last (current # rest))"
  by (induction rest arbitrary: merged current) auto

text \<open>
  Claim C5. For every scene sequence in which every scene has a duration of at least
  \<open>min_duration\<close>, \<open>merge_short_scenes\<close> returns that sequence unchanged.
\<close>

theorem merge_short_scenes_fixed_point:
  assumes "\<forall>s\<in>set scenes. md \<le> duration s"
  shows "merge_short_scenes scenes md = scenes"
proof (cases scenes)
  case Nil
  then show ?thesis by (simp add: merge_short_scenes_def)
next
  case (Cons first rest)
  with assms have a: "\<forall>s\<in>set (first # rest). md \<le> duration s" by simp
  have "last (first # rest) \<in> set (first # rest)" by (rule last_in_set) simp
  with a have l: "md \<le> duration (last (first # rest))" by blast
  from merge_loop_all_long[OF a, of "[]"] l Cons show ?thesis
    by (simp add: merge_short_scenes_def del: merge_loop.simps butlast.simps last.simps)
qed

theorem merge_short_scenes_fixed_point_witness:
  "1 \<le> duration (Scene 0 2 [(0, 1)]) \<and> 1 \<le> duration (Scene 2 5 []) \<and>
   merge_short_scenes [Scene 0 2 [(0, 1)], Scene 2 5 []] 1 = [Scene 0 2 [(0, 1)], Scene 2 5 []]"
  using merge_short_scenes_fixed_point [of "[Scene 0 2 [(0, 1)], Scene 2 5 []]" 1]
  by (simp add: Scene_def duration_def)

section \<open>Properties of the heuristic text score\<close>

lemma re_split_from_nonempty: "re_split_from cur in_sep s \<noteq> []"
  by (induction s arbitrary: cur in_sep) auto

lemma sentence_count_pos: "1 \<le> sentence_count text"
  using re_split_from_nonempty [of "[]" False "lower text"]
  by (cases "re_split_from [] False (lower text)")
     (simp_all add: sentence_count_def re_split_sentences_def)

lemma keyword_score_nonneg: "0 \<le> keyword_score text"
  by (simp add: keyword_score_def)

lemma quality_score_nonneg: "0 \<le> quality_score text"
  by (simp add: quality_score_def Let_def)

lemma density_score_nonneg: "0 \<le> density_score text"
  by (simp add: density_score_def Let_def)

text \<open>The heuristic score of a short example text, evaluated once.\<close>

lemma example_text_score: "score_text_with_keywords ''Is it a VIRAL hit?'' = 39 / 200"
  by code_simp

text \<open>
  Claim C4. The heuristic content score lies in \<open>[0, 1]\<close> when the text has at least 5
  words and at least 1 sentence, and is exactly 0 when the text has fewer than 5 words or
  zero sentences.
\<close>

theorem score_text_with_keywords_range:
  "(5 \<le> word_count text \<and> 1 \<le> sentence_count text \<longrightarrow>
      0 \<le> score_text_with_keywords text \<and> score_text_with_keywords text \<le> 1) \<and>
   (word_count text < 5 \<or> sentence_count text = 0 \<longrightarrow> score_text_with_keywords text = 0)"
proof -
  have "0 \<le> keyword_score text * 0.4 + quality_score text * 0.3 + density_score text * 0.3"
    using keyword_score_nonneg [of "text"] quality_score_nonneg [of "text"]
      density_score_nonneg [of "text"] by simp
  then show ?thesis by (simp add: score_text_with_keywords_def Let_def)
qed

theorem score_text_with_keywords_range_witness:
  "5 \<le> word_count ''Is it a VIRAL hit?'' \<and>
   1 \<le> sentence_count ''Is it a VIRAL hit?'' \<and>
   score_text_with_keywords ''Is it a VIRAL hit?'' = 39 / 200 \<and>
   0 \<le> score_text_with_keywords ''Is it a VIRAL hit?'' \<and>
   score_text_with_keywords ''Is it a VIRAL hit?'' \<le> 1 \<and>
   word_count ''Too short.'' < 5 \<and>
   score_text_with_keywords ''Too short.'' = 0"
proof -
  have w: "word_count ''Is it a VIRAL hit?'' = 5" by code_simp
  have s: "sentence_count ''Is it a VIRAL hit?'' = 2" by code_simp
  note v = example_text_score
  have w': "word_count ''Too short.'' = 2" by code_simp
  show ?thesis
    using score_text_with_keywords_range [of "''Is it a VIRAL hit?''"]
      score_text_with_keywords_range [of "''Too short.''"] w s v w'
    by simp
qed

text \<open>
  Claim C10. The keyword list has 36 elements, so the slices \<open>viral_keywords[40:52]\<close> and
  \<open>viral_keywords[52:]\<close> are empty: the emotional-trigger and call-to-action counts are 0
  for every text, and \<open>keyword_score\<close> is
  \<open>0.15 * high_impact_words + 0.25 * content_indicators\<close>.
\<close>

theorem upper_keyword_tiers_empty:
  "length viral_keywords = 36 \<and>
   slice viral_keywords 40 52 = [] \<and> slice_from viral_keywords 52 = [] \<and>
   emotional_triggers text = 0 \<and> call_to_action text = 0 \<and>
   keyword_score text =
     0.15 * real (high_impact_words text) + 0.25 * real (content_indicators text)"
proof -
  have len: "length viral_keywords = 36" by (simp add: viral_keywords_def)
  have s1: "slice viral_keywords 40 52 = []" by (simp add: slice_def len)
  have s2: "slice_from viral_keywords 52 = []" by (simp add: slice_from_def len)
  have e: "emotional_triggers text = 0" by (simp add: emotional_triggers_def s1 count_keywords_def)
  have c: "call_to_action text = 0" by (simp add: call_to_action_def s2 count_keywords_def)
  show ?thesis using len s1 s2 e c by (simp add: keyword_score_def)
qed

section \<open>Properties of the external scorer fallback\<close>

text \<open>
  Claim C7, amended. When the Cohere call raises, \<open>_score_text_with_cohere\<close> returns the
  local heuristic score of the text. When the call returns a response in which no digits
  can be found, it returns the fixed default 0.5, and when digits are found it returns the
  first run of digits divided by 100. In every case a score is returned and no failure
  reaches the caller.
\<close>

theorem score_text_with_cohere_cases:
  "score_text_with_cohere CohereRaised text = score_text_with_keywords text \<and>
   (re_search_digits (strip generated) = None \<longrightarrow>
      score_text_with_cohere (CohereText generated) text = 0.5) \<and>
   (\<forall>digits. re_search_digits (strip generated) = Some digits \<longrightarrow>
      score_text_with_cohere (CohereText generated) text = float_of_digits digits / 100)"
  by (simp add: score_text_with_cohere_def Let_def)

theorem score_text_with_cohere_cases_witness:
  "score_text_with_cohere CohereRaised ''Too short.'' = score_text_with_keywords ''Too short.'' \<and>
   re_search_digits (strip ''no idea'') = None \<and>
   score_text_with_cohere (CohereText ''no idea'') ''Too short.'' = 0.5 \<and>
   re_search_digits (strip '' 85 out of 100'') = Some ''85'' \<and>
   score_text_with_cohere (CohereText '' 85 out of 100'') ''Too short.'' = 85 / 100"
proof -
  have n: "re_search_digits (strip ''no idea'') = None" by code_simp
  have d: "re_search_digits (strip '' 85 out of 100'') = Some ''85''" by code_simp
  have f: "float_of_digits ''85'' = 85" by code_simp
  show ?thesis
    using score_text_with_cohere_cases [of "''Too short.''" "''no idea''"]
      score_text_with_cohere_cases [of "''Too short.''" "'' 85 out of 100''"] n d f
    by simp
qed

text \<open>
  A response without digits is a failure to parse a score, and the result is then not the
  heuristic score: for this text the heuristic gives 39/200, the function gives 1/2.
\<close>

theorem score_text_with_cohere_unparsed_counterexample:
  "re_search_digits (strip ''no idea'') = None \<and>
   score_text_with_cohere (CohereText ''no idea'') ''Is it a VIRAL hit?'' = 1 / 2 \<and>
   score_text_with_keywords ''Is it a VIRAL hit?'' = 39 / 200 \<and>
   score_text_with_cohere (CohereText ''no idea'') ''Is it a VIRAL hit?''
     \<noteq> score_text_with_keywords ''Is it a VIRAL hit?''"
proof -
  have n: "re_search_digits (strip ''no idea'') = None" by code_simp
  show ?thesis using n example_text_score by (simp add: score_text_with_cohere_def)
qed

section \<open>Properties of the greedy selection\<close>

lemma not_overlaps_any_apart:
  "\<not> overlaps_any g sel \<Longrightarrow> s \<in> set sel \<Longrightarrow> apart s g"
  by (auto simp: overlaps_any_def apart_def list_ex_iff not_less)

text \<open>The accepted groups stay pairwise apart through the selection loop.\<close>

lemma select_loop_apart:
  "sorted_wrt apart sel \<Longrightarrow> sorted_wrt apart (select_loop m sel gs)"
proof (induction gs arbitrary: sel)
  case Nil
  then show ?case by simp
next
  case (Cons g gs)
  show ?case
  proof (cases "overlaps_any g sel")
    case True
    with Cons show ?thesis by simp
  next
    case False
    with Cons.prems have s: "sorted_wrt apart (sel @ [g])"
      by (simp add: sorted_wrt_append not_overlaps_any_apart)
    from Cons.IH[OF s] s False show ?thesis by (simp add: Let_def)
  qed
qed

text \<open>
  Claim C1. For every list of scenes and every transcription, the highlights returned by
  \<open>select_highlights\<close> are pairwise non-overlapping in time: for any two highlights at
  distinct positions \<open>i\<close> and \<open>j\<close> of the result, one ends no later than the other starts.
\<close>

theorem select_highlights_non_overlapping:
  assumes i: "i < length (select_highlights min_d max_d scenes tr max_h)"
      and j: "j < length (select_highlights min_d max_d scenes tr max_h)"
      and ne: "i \<noteq> j"
  shows "h_end_time (select_highlights min_d max_d scenes tr max_h ! i)
           \<le> h_start_time (select_highlights min_d max_d scenes tr max_h ! j) \<or>
         h_end_time (select_highlights min_d max_d scenes tr max_h ! j)
           \<le> h_start_time (select_highlights min_d max_d scenes tr max_h ! i)"
proof -
  define sel where "sel = select_loop max_h []
     (sort_key (\<lambda>g. - g_score g)
        (scored_groups min_d max_d scenes (case tr of Some ws \<Rightarrow> ws | None \<Rightarrow> [])))"
  have hs: "select_highlights min_d max_d scenes tr max_h =
        map (\<lambda>grp. Highlight (g_start_time grp) (g_end_time grp) (g_score grp)
                         (g_text grp) (hd (g_scenes grp))) sel"
    by (simp add: select_highlights_def sel_def Let_def)
  have "sorted_wrt apart sel" unfolding sel_def by (rule select_loop_apart) simp
  then have ap: "\<And>a b. a < b \<Longrightarrow> b < length sel \<Longrightarrow> apart (sel ! a) (sel ! b)"
    by (simp add: sorted_wrt_iff_nth_less)
  from i j have li: "i < length sel" and lj: "j < length sel" by (simp_all add: hs)
  from ne consider "i < j" | "j < i" by linarith
  then have "apart (sel ! i) (sel ! j)"
  proof cases
    case 1
    with ap lj show ?thesis by blast
  next
    case 2
    with ap li have "apart (sel ! j) (sel ! i)" by blast
    then show ?thesis by (auto simp: apart_def)
  qed
  with li lj show ?thesis by (auto simp: hs apart_def Highlight_def)
qed

lemma gap_scenes_highlights:
  "map (\<lambda>h. (h_start_time h, h_end_time h)) (select_highlights 30 90 gap_scenes None 5)
     = [(0, 131), (135, 271)]"
  by code_simp

theorem select_highlights_non_overlapping_witness:
  "0 < length (select_highlights 30 90 gap_scenes None 5) \<and>
   1 < length (select_highlights 30 90 gap_scenes None 5) \<and>
   (0::nat) \<noteq> 1 \<and>
   (h_end_time (select_highlights 30 90 gap_scenes None 5 ! 0)
      \<le> h_start_time (select_highlights 30 90 gap_scenes None 5 ! 1) \<or>
    h_end_time (select_highlights 30 90 gap_scenes None 5 ! 1)
      \<le> h_start_time (select_highlights 30 90 gap_scenes None 5 ! 0))"
proof -
  have l: "length (select_highlights 30 90 gap_scenes None 5) = 2"
    using arg_cong [OF gap_scenes_highlights, of length] by simp
  show ?thesis
    using select_highlights_non_overlapping [of 0 30 90 gap_scenes None 5 1] l by simp
qed

text \<open>
  For a positive \<open>max_highlights\<close> the selection loop stops at \<open>max_highlights\<close> accepted
  groups.
\<close>

lemma select_loop_bounded:
  "1 \<le> m \<Longrightarrow> int (length sel) < m \<Longrightarrow> int (length (select_loop m sel gs)) \<le> m"
  by (induction gs arbitrary: sel) (auto simp: Let_def not_le)

lemma select_highlights_bounded_positive:
  "1 \<le> max_h \<Longrightarrow> int (length (select_highlights min_d max_d scenes tr max_h)) \<le> max_h"
  using select_loop_bounded [of max_h "[]"] by (simp add: select_highlights_def Let_def)

text \<open>
  Claim C8 says that the number of highlights returned is at most \<open>max_highlights\<close> for
  every \<open>max_highlights\<close>. The loop tests the bound only after it has appended a group, so
  with \<open>max_highlights = 0\<close> and one scene of 31 seconds (which yields one candidate) one
  highlight is returned.
\<close>

theorem select_highlights_zero_max_returns_one:
  "length (select_highlights 30 90 [Scene 0 31 []] None 0) = 1"
  by code_simp

section \<open>Properties of candidate building\<close>

text \<open>The index \<open>max(0, i - 1)\<close> and the length of a slice.\<close>

lemma context_start_nat: "nat (max 0 (int i - 1)) = i - 1"
  by (cases i) simp_all

lemma length_slice: "length (slice xs a b) = min b (length xs) - a"
  by (simp add: slice_def min.commute)

text \<open>What the inner loop records: the start index, an index it has visited, and the slice.\<close>

lemma grow_window_emitted:
  "(a, b, grp) \<in> set (grow_window mn mx scenes i cg cd sf tf js) \<Longrightarrow>
   a = i \<and> b \<in> set js \<and> grp = slice scenes (i - 1) (min (length scenes) (b + 2))"
proof (induction js arbitrary: cg cd sf tf)
  case Nil
  then show ?case by simp
next
  case (Cons j js)
  then show ?case
    by (fastforce simp: Let_def context_start_nat split: if_splits)
qed

text \<open>
  Every recorded window has \<open>i \<le> j < len(scenes)\<close>, so every recorded group is a
  non-empty slice and \<open>group[0]\<close>, \<open>group[-1]\<close> exist.
\<close>

lemma candidate_windows_emitted:
  assumes "(a, b, grp) \<in> set (candidate_windows mn mx scenes)"
  shows "a \<le> b \<and> b < length scenes \<and> grp = slice scenes (a - 1) (min (length scenes) (b + 2))"
proof -
  from assms obtain i where i: "i < length scenes"
    and m: "(a, b, grp) \<in> set (grow_window mn mx scenes i [] 0 0 0 [i..<length scenes])"
    by (auto simp: candidate_windows_def)
  from grow_window_emitted[OF m] show ?thesis by auto
qed

lemma scene_groups_nonempty:
  assumes "grp \<in> set (scene_groups mn mx scenes)"
  shows "grp \<noteq> []"
proof -
  from assms obtain a b where "(a, b, grp) \<in> set (candidate_windows mn mx scenes)"
    by (auto simp: scene_groups_def)
  from candidate_windows_emitted[OF this]
  have "a \<le> b" "b < length scenes" "length grp = min (min (length scenes) (b + 2)) (length scenes) - (a - 1)"
    by (simp_all add: length_slice)
  then have "0 < length grp" by linarith
  then show ?thesis by simp
qed

text \<open>
  Claim C6. Every scored candidate group has at least one scene, its stored \<open>end_time\<close>
  is exactly the \<open>end_time\<close> of its last scene (the right-hand pad
  \<open>min(end + context_window, end)\<close> never extends the end), and its stored \<open>start_time\<close>
  is \<open>max(0, start_time of its first scene - context_window)\<close> with \<open>context_window = 5\<close>.
\<close>

theorem scored_group_times:
  assumes "g \<in> set (scored_groups min_d max_d scenes words)"
  shows "g_scenes g \<noteq> [] \<and>
         g_end_time g = end_time (last (g_scenes g)) \<and>
         g_start_time g = max 0 (start_time (hd (g_scenes g)) - 5) \<and>
         min (end_time (last (g_scenes g)) + context_window) (end_time (last (g_scenes g)))
           = end_time (last (g_scenes g))"
proof -
  from assms obtain grp where grp: "grp \<in> set (scene_groups min_d max_d scenes)"
    and g: "g = score_group words grp"
    by (auto simp: scored_groups_def)
  from scene_groups_nonempty[OF grp] g show ?thesis
    by (simp add: score_group_def Let_def context_window_def)
qed

text \<open>One scene from second 10 to second 41 and no words: the one scored group.\<close>

lemma one_scene_scored:
  "scored_groups 30 90 [Scene 10 41 []] [] =
     [\<lparr>g_scenes = [Scene 10 41 []], g_start_time = 5, g_end_time = 41, g_duration = 36,
       g_text = [], g_score = 1 / 50\<rparr>]"
  by code_simp

theorem scored_group_times_witness:
  "\<lparr>g_scenes = [Scene 10 41 []], g_start_time = 5, g_end_time = 41, g_duration = 36,
     g_text = [], g_score = 1 / 50\<rparr> \<in> set (scored_groups 30 90 [Scene 10 41 []] []) \<and>
   g_end_time \<lparr>g_scenes = [Scene 10 41 []], g_start_time = 5, g_end_time = 41, g_duration = 36,
     g_text = [], g_score = 1 / 50\<rparr> = end_time (last [Scene 10 41 []]) \<and>
   g_start_time \<lparr>g_scenes = [Scene 10 41 []], g_start_time = 5, g_end_time = 41, g_duration = 36,
     g_text = [], g_score = 1 / 50\<rparr> = max 0 (start_time (hd [Scene 10 41 []]) - 5)"
  using scored_group_times [of "\<lparr>g_scenes = [Scene 10 41 []], g_start_time = 5, g_end_time = 41,
     g_duration = 36, g_text = [], g_score = 1 / 50\<rparr>" 30 90 "[Scene 10 41 []]" "[]"]
  by (simp add: one_scene_scored)

text \<open>
  One pass of the inner loop that does not exceed \<open>max_duration\<close> continues with the
  updated loop variables.
\<close>

lemma grow_window_continue:
  assumes "cd + duration (scenes ! k) \<le> mx"
  shows "\<exists>em. grow_window mn mx scenes i cg cd sf tf (k # rest) =
           em @ grow_window mn mx scenes i (cg @ [scenes ! k]) (cd + duration (scenes ! k))
                  (sf + speech_duration (scenes ! k) * 30) (tf + duration (scenes ! k) * 30) rest"
  using assms by (simp add: Let_def)

text \<open>
  A pass at an index \<open>j > i\<close> with a natural break and enough accumulated duration
  records the window, whether or not the loop stops there.
\<close>

lemma grow_window_break_emits:
  assumes "mn \<le> cd + duration (scenes ! j)" "i < j" "j < length scenes - 1"
    "speech_segments (scenes ! j) = []" "speech_segments (scenes ! (j + 1)) \<noteq> []"
  shows "(i, j, slice scenes (i - 1) (min (length scenes) (j + 2)))
           \<in> set (grow_window mn mx scenes i cg cd sf tf (j # post))"
  using assms by (simp add: Let_def context_start_nat)

text \<open>
  The same after any run of earlier passes \<open>pre\<close> that all stay within \<open>max_duration\<close>.
\<close>

lemma grow_window_natural_break:
  assumes "\<forall>m. 0 < m \<and> m \<le> length pre \<longrightarrow>
             cd + sum_list (map (\<lambda>k. duration (scenes ! k)) (take m pre)) \<le> mx"
    and "mn \<le> cd + sum_list (map (\<lambda>k. duration (scenes ! k)) (pre @ [j]))"
    and "i < j" "j < length scenes - 1"
    and "speech_segments (scenes ! j) = []" "speech_segments (scenes ! (j + 1)) \<noteq> []"
  shows "(i, j, slice scenes (i - 1) (min (length scenes) (j + 2)))
           \<in> set (grow_window mn mx scenes i cg cd sf tf (pre @ j # post))"
  using assms(1,2)
proof (induction pre arbitrary: cg cd sf tf)
  case Nil
  then have "mn \<le> cd + duration (scenes ! j)" by simp
  from grow_window_break_emits[OF this assms(3-6)] show ?case by simp
next
  case (Cons k pre)
  from Cons.prems(1)[rule_format, of 1] have le: "cd + duration (scenes ! k) \<le> mx" by simp
  have a: "\<forall>m. 0 < m \<and> m \<le> length pre \<longrightarrow>
        (cd + duration (scenes ! k)) + sum_list (map (\<lambda>k. duration (scenes ! k)) (take m pre)) \<le> mx"
  proof (intro allI impI)
    fix m assume "0 < m \<and> m \<le> length pre"
    with Cons.prems(1)[rule_format, of "Suc m"] show
      "(cd + duration (scenes ! k)) + sum_list (map (\<lambda>k. duration (scenes ! k)) (take m pre)) \<le> mx"
      by (simp add: add.assoc)
  qed
  from Cons.prems(2) have b: "mn \<le> (cd + duration (scenes ! k)) +
        sum_list (map (\<lambda>k. duration (scenes ! k)) (pre @ [j]))" by (simp add: add.assoc)
  from grow_window_continue[OF le] obtain em where
    "grow_window mn mx scenes i cg cd sf tf (k # pre @ j # post) =
       em @ grow_window mn mx scenes i (cg @ [scenes ! k]) (cd + duration (scenes ! k))
              (sf + speech_duration (scenes ! k) * 30) (tf + duration (scenes ! k) * 30)
              (pre @ j # post)" by blast
  with Cons.IH[OF a b] show ?case by simp
qed

text \<open>
  A window end \<open>j > i\<close> that the loop reaches, with enough accumulated duration and a
  natural break, is recorded.
\<close>

lemma later_window_break_emits:
  assumes ij: "i < j" and jl: "j < length scenes - 1"
    and reach: "\<forall>k. i \<le> k \<and> k < j \<longrightarrow> window_duration scenes i k \<le> max_d"
    and dur: "min_d \<le> window_duration scenes i j"
    and quiet: "speech_segments (scenes ! j) = []"
    and speech: "speech_segments (scenes ! (j + 1)) \<noteq> []"
  shows "(i, j, slice scenes (i - 1) (min (length scenes) (j + 2)))
           \<in> set (candidate_windows min_d max_d scenes) \<and>
         slice scenes (i - 1) (min (length scenes) (j + 2))
           \<in> set (scene_groups min_d max_d scenes)"
proof -
  from ij jl have jn: "j < length scenes" by linarith
  have "[i..<j + (length scenes - j)] = [i..<j] @ [j..<j + (length scenes - j)]"
    using ij by (intro upt_add_eq_append) simp
  with jn have split: "[i..<length scenes] = [i..<j] @ j # [Suc j..<length scenes]"
    by (simp add: upt_conv_Cons)
  have a: "\<forall>m. 0 < m \<and> m \<le> length [i..<j] \<longrightarrow>
             0 + sum_list (map (\<lambda>k. duration (scenes ! k)) (take m [i..<j])) \<le> max_d"
  proof (intro allI impI)
    fix m assume m: "0 < m \<and> m \<le> length [i..<j]"
    with ij have "i + m \<le> j" by (simp only: length_upt) linarith
    with m have t: "take m [i..<j] = [i..<Suc (i + m - 1)]" by simp
    from m have "i \<le> i + m - 1 \<and> i + m - 1 < j" by auto
    with reach have "window_duration scenes i (i + m - 1) \<le> max_d" by blast
    with t show "0 + sum_list (map (\<lambda>k. duration (scenes ! k)) (take m [i..<j])) \<le> max_d"
      by (simp add: window_duration_def)
  qed
  from ij dur have b: "min_d \<le> 0 + sum_list (map (\<lambda>k. duration (scenes ! k)) ([i..<j] @ [j]))"
    by (simp add: window_duration_def)
  from grow_window_natural_break[OF a b ij jl quiet speech, of "[]" 0 0 "[Suc j..<length scenes]"]
  have g: "(i, j, slice scenes (i - 1) (min (length scenes) (j + 2)))
        \<in> set (grow_window min_d max_d scenes i [] 0 0 0 [i..<length scenes])"
    by (simp add: split)
  from ij jl have "i < length scenes" by linarith
  with g have w: "(i, j, slice scenes (i - 1) (min (length scenes) (j + 2)))
        \<in> set (candidate_windows min_d max_d scenes)"
    by (auto simp: candidate_windows_def)
  then have "slice scenes (i - 1) (min (length scenes) (j + 2)) \<in> set (scene_groups min_d max_d scenes)"
    by (force simp: scene_groups_def)
  with w show ?thesis by simp
qed

text \<open>
  The first pass of the inner loop (\<open>j = i\<close>) records its window exactly when the duration
  of the scene lies between \<open>adaptive_min\<close> and \<open>adaptive_max\<close>: the natural break is
  switched off there by the guard \<open>j > i\<close>.
\<close>

lemma grow_window_first_pass:
  assumes "i \<notin> set js"
  shows "(i, i, g) \<in> set (grow_window mn mx scenes i [] 0 0 0 (i # js)) \<longleftrightarrow>
           g = slice scenes (i - 1) (min (length scenes) (i + 2)) \<and>
           mn \<le> duration (scenes ! i) \<and>
           duration (scenes ! i) \<le> first_pass_adaptive_max mn mx (scenes ! i)"
proof -
  have tail: "(i, i, g) \<notin> set (grow_window mn mx scenes i cg cd sf tf js)" for cg cd sf tf
    using grow_window_emitted [of i i g mn mx scenes i cg cd sf tf js] assms by blast
  show ?thesis
    by (auto simp: Let_def first_pass_adaptive_max_def context_start_nat tail)
qed

lemma candidate_windows_single:
  "(i, i, g) \<in> set (candidate_windows mn mx scenes) \<longleftrightarrow>
     i < length scenes \<and>
     g = slice scenes (i - 1) (min (length scenes) (i + 2)) \<and>
     mn \<le> duration (scenes ! i) \<and>
     duration (scenes ! i) \<le> first_pass_adaptive_max mn mx (scenes ! i)"
proof -
  have "(i, i, g) \<in> set (candidate_windows mn mx scenes) \<longleftrightarrow>
        i < length scenes \<and>
        (i, i, g) \<in> set (grow_window mn mx scenes i [] 0 0 0 [i..<length scenes])"
  proof
    assume "(i, i, g) \<in> set (candidate_windows mn mx scenes)"
    then obtain x where x: "x < length scenes"
      and m: "(i, i, g) \<in> set (grow_window mn mx scenes x [] 0 0 0 [x..<length scenes])"
      by (auto simp: candidate_windows_def)
    from grow_window_emitted[OF m] have "i = x" by simp
    with x m show "i < length scenes \<and>
        (i, i, g) \<in> set (grow_window mn mx scenes i [] 0 0 0 [i..<length scenes])" by simp
  next
    assume "i < length scenes \<and>
        (i, i, g) \<in> set (grow_window mn mx scenes i [] 0 0 0 [i..<length scenes])"
    then show "(i, i, g) \<in> set (candidate_windows mn mx scenes)"
      by (auto simp: candidate_windows_def)
  qed
  also have "\<dots> \<longleftrightarrow> i < length scenes \<and>
        (i, i, g) \<in> set (grow_window mn mx scenes i [] 0 0 0 (i # [Suc i..<length scenes]))"
    by (auto simp: upt_conv_Cons)
  also have "\<dots> \<longleftrightarrow> i < length scenes \<and>
     g = slice scenes (i - 1) (min (length scenes) (i + 2)) \<and>
     mn \<le> duration (scenes ! i) \<and>
     duration (scenes ! i) \<le> first_pass_adaptive_max mn mx (scenes ! i)"
    using grow_window_first_pass [of i "[Suc i..<length scenes]" g mn mx scenes] by simp
  finally show ?thesis .
qed

text \<open>
  Claim C9, amended. For every start index \<open>i\<close> and every later window end \<open>j > i\<close> that the
  inner loop reaches (the duration accumulated up to each earlier end \<open>k\<close> with
  \<open>i \<le> k < j\<close> does not exceed \<open>max_duration\<close>): whenever the accumulated duration is at
  least \<open>adaptive_min = min_duration\<close>, the scene at \<open>j\<close> has no speech segments and the
  scene at \<open>j + 1\<close> has speech segments, a candidate group is emitted for that window,
  namely \<open>scenes[max(0, i - 1) : min(len(scenes), j + 2)]\<close>. For the single-scene window
  \<open>j = i\<close> the natural break is not consulted: a group is emitted for it exactly when
  \<open>adaptive_min \<le> duration \<le> adaptive_max\<close> holds for the scene at \<open>i\<close>.
\<close>

theorem natural_break_emits:
  "(i < j \<and> j < length scenes - 1 \<and>
    (\<forall>k. i \<le> k \<and> k < j \<longrightarrow> window_duration scenes i k \<le> max_d) \<and>
    min_d \<le> window_duration scenes i j \<and>
    speech_segments (scenes ! j) = [] \<and> speech_segments (scenes ! (j + 1)) \<noteq> [] \<longrightarrow>
      (i, j, slice scenes (i - 1) (min (length scenes) (j + 2)))
         \<in> set (candidate_windows min_d max_d scenes) \<and>
      slice scenes (i - 1) (min (length scenes) (j + 2))
         \<in> set (scene_groups min_d max_d scenes)) \<and>
   ((i, i, g) \<in> set (candidate_windows min_d max_d scenes) \<longleftrightarrow>
      i < length scenes \<and>
      g = slice scenes (i - 1) (min (length scenes) (i + 2)) \<and>
      min_d \<le> duration (scenes ! i) \<and>
      duration (scenes ! i) \<le> first_pass_adaptive_max min_d max_d (scenes ! i))"
  using later_window_break_emits [of i j scenes max_d min_d]
    candidate_windows_single [of i g min_d max_d scenes]
  by blast

theorem natural_break_emits_witness:
  "(0::nat) < 1 \<and> 1 < length pause_scenes - 1 \<and>
   window_duration pause_scenes 0 0 \<le> 90 \<and>
   30 \<le> window_duration pause_scenes 0 1 \<and>
   speech_segments (pause_scenes ! 1) = [] \<and>
   speech_segments (pause_scenes ! (1 + 1)) \<noteq> [] \<and>
   (0, 1, pause_scenes) \<in> set (candidate_windows 30 90 pause_scenes) \<and>
   30 \<le> duration ([Scene 10 41 []] ! 0) \<and>
   duration ([Scene 10 41 []] ! 0) \<le> first_pass_adaptive_max 30 90 ([Scene 10 41 []] ! 0) \<and>
   (0, 0, [Scene 10 41 []]) \<in> set (candidate_windows 30 90 [Scene 10 41 []])"
proof -
  have d0: "window_duration pause_scenes 0 0 = 20"
    by (simp add: window_duration_def pause_scenes_def Scene_def duration_def)
  have d1: "window_duration pause_scenes 0 1 = 120"
    by (simp add: window_duration_def pause_scenes_def Scene_def duration_def)
  have r: "\<forall>k. 0 \<le> k \<and> k < 1 \<longrightarrow> window_duration pause_scenes 0 k \<le> 90"
    using d0 by auto
  have l: "length pause_scenes = 3" by (simp add: pause_scenes_def)
  have s1: "speech_segments (pause_scenes ! 1) = []" by (simp add: pause_scenes_def Scene_def)
  have s2: "speech_segments (pause_scenes ! (1 + 1)) \<noteq> []" by (simp add: pause_scenes_def Scene_def)
  have sl: "slice pause_scenes (0 - 1) (min (length pause_scenes) (1 + 2)) = pause_scenes"
    by (simp add: slice_def l)
  have m: "first_pass_adaptive_max 30 90 (Scene 10 41 []) = 33"
    by (simp add: first_pass_adaptive_max_def Scene_def duration_def speech_duration_def)
  have d: "duration (Scene 10 41 []) = 31" by (simp add: Scene_def duration_def)
  have sl1: "slice [Scene 10 41 []] (0 - 1) (min (length [Scene 10 41 []]) (0 + 2)) = [Scene 10 41 []]"
    by (simp add: slice_def)
  show ?thesis
    using natural_break_emits [of 0 1 pause_scenes 90 30 "[]"]
      natural_break_emits [of 0 0 "[Scene 10 41 []]" 90 30 "[Scene 10 41 []]"]
      r d0 d1 l s1 s2 sl m d sl1
    by simp
qed

text \<open>
  For a window of one scene (\<open>j = i\<close>) the natural break is not consulted: a first scene
  of 100 seconds without speech, followed by a scene with speech, has an accumulated
  duration above \<open>adaptive_min = 30\<close>, and no candidate is emitted at all.
\<close>

theorem single_scene_break_counterexample:
  "0 < length long_quiet_scenes - 1 \<and>
   30 \<le> window_duration long_quiet_scenes 0 0 \<and>
   speech_segments (long_quiet_scenes ! 0) = [] \<and>
   speech_segments (long_quiet_scenes ! (0 + 1)) \<noteq> [] \<and>
   candidate_windows 30 90 long_quiet_scenes = [] \<and>
   scene_groups 30 90 long_quiet_scenes = []"
proof -
  have c: "candidate_windows 30 90 long_quiet_scenes = []" by code_simp
  have d: "window_duration long_quiet_scenes 0 0 = 100"
    by (simp add: window_duration_def long_quiet_scenes_def Scene_def duration_def)
  show ?thesis using c d
    by (simp add: scene_groups_def long_quiet_scenes_def Scene_def)
qed

end
